theory Spec2Isabelle
  imports Main "HOL-Library.Word"
begin

section \<open>Data model\<close>

text \<open>
  \<^verbatim>\<open>divider.py\<close> is a straight-line script over OpenCV arrays of 8-bit unsigned samples.
  An array of shape (H, W) is a list of H rows of W samples; the colour image that
  \<^verbatim>\<open>cv2.imread\<close> returns has shape (H, W, 3) and is a grid of triples in the native
  channel order (channel 0, channel 1, channel 2).
\<close>

type_synonym u8 = "8 word"
type_synonym bgr = "u8 \<times> u8 \<times> u8"
type_synonym 'a grid = "'a list list"

definition shape :: "'a grid \<Rightarrow> nat list" where
  "shape g = map length g"

definition has_shape :: "'a grid \<Rightarrow> nat \<Rightarrow> nat \<Rightarrow> bool" where
  "has_shape g h w = (length g = h \<and> list_all (\<lambda>row. length row = w) g)"

section \<open>The script's constants\<close>

text \<open>\<^verbatim>\<open>lower = (0, 80, 110)\<close> and \<^verbatim>\<open>upper = (0, 120, 150)\<close>.\<close>

definition lower :: bgr where
  "lower = (0, 80, 110)"

definition upper :: bgr where
  "upper = (0, 120, 150)"

definition white :: bgr where
  "white = (255, 255, 255)"

section \<open>The array operations the script calls\<close>

text \<open>
  \<^verbatim>\<open>cv2.inRange(src, lowerb, upperb)\<close>: sample (i, j) of the result is 255 when every
  channel c of the source pixel satisfies lowerb[c] <= src[c] <= upperb[c], and 0 otherwise.
\<close>

definition in_bounds :: "bgr \<Rightarrow> bgr \<Rightarrow> bgr \<Rightarrow> bool" where
  "in_bounds lo hi p =
     (case lo of (l0, l1, l2) \<Rightarrow> case hi of (h0, h1, h2) \<Rightarrow> case p of (c0, c1, c2) \<Rightarrow>
        l0 \<le> c0 \<and> c0 \<le> h0 \<and> l1 \<le> c1 \<and> c1 \<le> h1 \<and> l2 \<le> c2 \<and> c2 \<le> h2)"

definition inRange :: "bgr grid \<Rightarrow> bgr \<Rightarrow> bgr \<Rightarrow> u8 grid" where
  "inRange src lo hi = map (map (\<lambda>p. if in_bounds lo hi p then 255 else 0)) src"

text \<open>
  \<^verbatim>\<open>cv2.getStructuringElement(cv2.MORPH_RECT, (w, h))\<close>: an all-ones rectangle, which its
  size (width, height) determines. The morphological operators anchor it at its centre
  (w div 2, h div 2).
\<close>

type_synonym kernel = "nat \<times> nat"

definition getStructuringElement :: "nat \<times> nat \<Rightarrow> kernel" where
  "getStructuringElement ksize = ksize"

text \<open>
  Sample (y, x) of a grid, or the border value \<open>bv\<close> when (y, x) lies outside it.
\<close>

definition pixel_or :: "'a \<Rightarrow> 'a grid \<Rightarrow> int \<Rightarrow> int \<Rightarrow> 'a" where
  "pixel_or bv g y x =
     (if 0 \<le> y \<and> y < int (length g) \<and> 0 \<le> x \<and> x < int (length (g ! nat y))
      then g ! nat y ! nat x else bv)"

text \<open>The samples under the kernel when its anchor sits on (i, j), row by row.\<close>

definition window :: "u8 \<Rightarrow> kernel \<Rightarrow> u8 grid \<Rightarrow> nat \<Rightarrow> nat \<Rightarrow> u8 list" where
  "window bv k g i j =
     (case k of (kw, kh) \<Rightarrow>
        concat (map (\<lambda>dy. map (\<lambda>dx.
            pixel_or bv g (int i + int dy - int (kh div 2)) (int j + int dx - int (kw div 2)))
          [0..<kw]) [0..<kh]))"

text \<open>
  Dilation takes the maximum under the kernel and erosion the minimum. With the default
  border of the morphological operators, samples outside the image do not take part:
  they count as 0 for the maximum and as 255 for the minimum.
\<close>

definition dilate :: "u8 grid \<Rightarrow> kernel \<Rightarrow> u8 grid" where
  "dilate g k =
     map (\<lambda>i. map (\<lambda>j. foldr max (window 0 k g i j) 0) [0..<length (g ! i)]) [0..<length g]"

definition erode :: "u8 grid \<Rightarrow> kernel \<Rightarrow> u8 grid" where
  "erode g k =
     map (\<lambda>i. map (\<lambda>j. foldr min (window 255 k g i j) 255) [0..<length (g ! i)]) [0..<length g]"

text \<open>
  \<^verbatim>\<open>cv2.morphologyEx(src, op, kernel)\<close> for the two operations the script uses:
  \<^verbatim>\<open>MORPH_DILATE\<close> dilates, \<^verbatim>\<open>MORPH_OPEN\<close> erodes and then dilates with the same kernel.
\<close>

datatype morph_op = MORPH_DILATE | MORPH_OPEN

definition morphologyEx :: "u8 grid \<Rightarrow> morph_op \<Rightarrow> kernel \<Rightarrow> u8 grid" where
  "morphologyEx src op k =
     (case op of MORPH_DILATE \<Rightarrow> dilate src k | MORPH_OPEN \<Rightarrow> dilate (erode src k) k)"

text \<open>
  \<^verbatim>\<open>img[mask == 255] = (255, 255, 255)\<close>: boolean-mask assignment. Every pixel whose mask
  sample is 255 receives the value; the others keep theirs. NumPy raises IndexError when
  the mask's shape differs from the image's; the script's step checks that.
\<close>

definition mask_assign :: "bgr grid \<Rightarrow> u8 grid \<Rightarrow> bgr \<Rightarrow> bgr grid" where
  "mask_assign a m v =
     map (\<lambda>(row, mrow). map (\<lambda>(p, s). if s = 255 then v else p) (zip row mrow)) (zip a m)"

text \<open>
  \<^verbatim>\<open>cv2.cvtColor(img, cv2.COLOR_BGR2GRAY)\<close> maps every pixel through one fixed weighted
  combination of its channels. The weights and the rounding belong to the library; the
  combination is a parameter \<open>luma\<close> here.
\<close>

definition cvtColor :: "(bgr \<Rightarrow> u8) \<Rightarrow> bgr grid \<Rightarrow> u8 grid" where
  "cvtColor luma src = map (map luma) src"

text \<open>
  \<^verbatim>\<open>cv2.threshold(gray, 0, 255, cv2.THRESH_OTSU)[1]\<close>: the threshold type is
  \<^verbatim>\<open>THRESH_BINARY\<close> (value 0) with the Otsu flag, so the level is chosen from the image
  and a sample becomes maxval when it is greater than the level and 0 otherwise. Otsu's
  choice of the level is computed by the library in floating point; it is a parameter
  \<open>otsu\<close> here.
\<close>

definition threshold :: "(u8 grid \<Rightarrow> u8) \<Rightarrow> u8 grid \<Rightarrow> u8 \<Rightarrow> u8 grid" where
  "threshold otsu src maxval =
     (let t = otsu src in map (map (\<lambda>v. if t < v then maxval else 0)) src)"

text \<open>\<^verbatim>\<open>255 - morph\<close> on an array of 8-bit unsigned samples (the subtraction wraps).\<close>

definition invert :: "u8 grid \<Rightarrow> u8 grid" where
  "invert g = map (map (\<lambda>v. 255 - v)) g"

section \<open>The script, statement by statement\<close>

text \<open>
  What lies outside the script: what \<^verbatim>\<open>cv2.imread\<close> decodes at a path (\<open>None\<close> when the
  file is missing or is not a readable image, as \<^verbatim>\<open>imread\<close> returns Python's
  \<^verbatim>\<open>None\<close> then), whether a path can be written, whether a key press arrives during the
  n-th poll of \<^verbatim>\<open>cv2.waitKey(0)\<close>, and the two library computations taken as parameters.
\<close>

record env =
  disk :: "string \<Rightarrow> bgr grid option"
  writable :: "string \<Rightarrow> bool"
  key_pressed :: "nat \<Rightarrow> bool"
  luma :: "bgr \<Rightarrow> u8"
  otsu :: "u8 grid \<Rightarrow> u8"

datatype fault = CvError | TypeError | IndexError

text \<open>Program points are named after the line of the statement about to run.\<close>

datatype pc =
  L5 | L12 | L15 | L16 | L19 | L22 | L25 | L28 | L29 | L30 | L33 | L35 | L36
  | Exited | Raised fault

text \<open>
  The script's variables, the files written by \<^verbatim>\<open>cv2.imwrite\<close> (path to the image handed
  over), the windows shown by \<^verbatim>\<open>cv2.imshow\<close>, and the number of polls \<^verbatim>\<open>waitKey\<close> has
  made so far. A variable not yet assigned holds the empty grid.
\<close>

record state =
  pc :: pc
  img :: "bgr grid option"
  mask :: "u8 grid"
  kernel :: kernel
  gray :: "u8 grid"
  thresh :: "u8 grid"
  morph :: "u8 grid"
  saved :: "string \<Rightarrow> u8 grid option"
  shown :: "(string \<times> u8 grid) list"
  polls :: nat

definition init :: state where
  "init = \<lparr>pc = L5, img = None, mask = [], kernel = (0, 0), gray = [], thresh = [],
           morph = [], saved = (\<lambda>_. None), shown = [], polls = 0\<rparr>"

definition step :: "env \<Rightarrow> state \<Rightarrow> state" where
  "step e s =
     (case pc s of
        L5 \<Rightarrow> s\<lparr>img := disk e ''test.png'', pc := L12\<rparr>
      | L12 \<Rightarrow>
          (case img s of
             None \<Rightarrow> s\<lparr>pc := Raised CvError\<rparr>
           | Some a \<Rightarrow> s\<lparr>mask := inRange a lower upper, pc := L15\<rparr>)
      | L15 \<Rightarrow> s\<lparr>kernel := getStructuringElement (15, 15), pc := L16\<rparr>
      | L16 \<Rightarrow> s\<lparr>mask := morphologyEx (mask s) MORPH_DILATE (kernel s), pc := L19\<rparr>
      | L19 \<Rightarrow>
          (case img s of
             None \<Rightarrow> s\<lparr>pc := Raised TypeError\<rparr>
           | Some a \<Rightarrow>
               if shape (mask s) = shape a
               then s\<lparr>img := Some (mask_assign a (mask s) white), pc := L22\<rparr>
               else s\<lparr>pc := Raised IndexError\<rparr>)
      | L22 \<Rightarrow>
          (case img s of
             None \<Rightarrow> s\<lparr>pc := Raised CvError\<rparr>
           | Some a \<Rightarrow> s\<lparr>gray := cvtColor (luma e) a, pc := L25\<rparr>)
      | L25 \<Rightarrow> s\<lparr>thresh := threshold (otsu e) (gray s) 255, pc := L28\<rparr>
      | L28 \<Rightarrow> s\<lparr>kernel := getStructuringElement (17, 17), pc := L29\<rparr>
      | L29 \<Rightarrow> s\<lparr>morph := morphologyEx (thresh s) MORPH_OPEN (kernel s), pc := L30\<rparr>
      | L30 \<Rightarrow> s\<lparr>morph := invert (morph s), pc := L33\<rparr>
      | L33 \<Rightarrow>
          (if writable e ''morph.jpg''
           then s\<lparr>saved := (saved s)(''morph.jpg'' \<mapsto> morph s), pc := L35\<rparr>
           else s\<lparr>pc := L35\<rparr>)
      | L35 \<Rightarrow> s\<lparr>shown := shown s @ [(''morph'', morph s)], pc := L36\<rparr>
      | L36 \<Rightarrow>
          (if key_pressed e (polls s) then s\<lparr>pc := Exited\<rparr>
           else s\<lparr>polls := Suc (polls s)\<rparr>)
      | Exited \<Rightarrow> s
      | Raised f \<Rightarrow> s)"

text \<open>The state after \<open>n\<close> steps from the start of the script.\<close>

definition run :: "env \<Rightarrow> nat \<Rightarrow> state" where
  "run e n = (step e ^^ n) init"

text \<open>
  The values the script's variables take along a run in which the image loads, each one
  the right-hand side of its assignment: \<open>mask\<close> after line 12 and after line 16,
  \<open>img\<close> after line 19, \<open>gray\<close>, \<open>thresh\<close>, and \<open>morph\<close> after line 29 and
  after line 30. The lemmas on \<open>run\<close> below show that the states hold exactly these.
\<close>

definition border_mask :: "bgr grid \<Rightarrow> u8 grid" where
  "border_mask a = inRange a lower upper"

definition dilated_mask :: "bgr grid \<Rightarrow> u8 grid" where
  "dilated_mask a = morphologyEx (border_mask a) MORPH_DILATE (getStructuringElement (15, 15))"

definition recolored :: "bgr grid \<Rightarrow> bgr grid" where
  "recolored a = mask_assign a (dilated_mask a) white"

definition grayed :: "env \<Rightarrow> bgr grid \<Rightarrow> u8 grid" where
  "grayed e a = cvtColor (luma e) (recolored a)"

definition threshed :: "env \<Rightarrow> bgr grid \<Rightarrow> u8 grid" where
  "threshed e a = threshold (otsu e) (grayed e a) 255"

definition opened :: "env \<Rightarrow> bgr grid \<Rightarrow> u8 grid" where
  "opened e a = morphologyEx (threshed e a) MORPH_OPEN (getStructuringElement (17, 17))"

definition final :: "env \<Rightarrow> bgr grid \<Rightarrow> u8 grid" where
  "final e a = invert (opened e a)"

section \<open>Concrete environments\<close>

text \<open>
  Small environments on which the theorems below are evaluated. In each of them the
  grayscale combination reads channel 1 and the threshold level is 127.

  \<open>env_missing\<close>: there is no file at any path.
\<close>

definition env_missing :: env where
  "env_missing = \<lparr>disk = (\<lambda>_. None), writable = (\<lambda>_. True), key_pressed = (\<lambda>_. False),
     luma = (\<lambda>p. fst (snd p)), otsu = (\<lambda>_. 127)\<rparr>"

text \<open>
  \<open>env_of a\<close>: \<^verbatim>\<open>test.png\<close> decodes to the image \<open>a\<close>, every path can be written,
  and no key is ever pressed.
\<close>

definition env_of :: "bgr grid \<Rightarrow> env" where
  "env_of a = \<lparr>disk = (\<lambda>p. if p = ''test.png'' then Some a else None),
     writable = (\<lambda>_. True), key_pressed = (\<lambda>_. False),
     luma = (\<lambda>p. fst (snd p)), otsu = (\<lambda>_. 127)\<rparr>"

text \<open>
  Three images of one row. In \<open>img_border\<close> the first pixel has the border colour and the
  second lies outside the range on every channel; \<open>img_plain\<close> has no pixel of the border
  colour; in \<open>img_far\<close> the last pixel is nine columns away from the only pixel of the
  border colour.
\<close>

definition img_border :: "bgr grid" where
  "img_border = [[(0, 100, 130), (1, 10, 10)]]"

definition img_plain :: "bgr grid" where
  "img_plain = [[(10, 200, 30), (40, 50, 60)]]"

definition img_far :: "bgr grid" where
  "img_far = [[(0, 100, 130), (9, 9, 9), (9, 9, 9), (9, 9, 9), (9, 9, 9),
               (9, 9, 9), (9, 9, 9), (9, 9, 9), (9, 9, 9), (1, 10, 10)]]"

section \<open>Properties of pixels and images\<close>

text \<open>
  A pixel lies strictly outside the range \<open>[lo, hi]\<close> on all three channels when each of
  its channels is below the lower bound or above the upper bound of that channel.
\<close>

definition strictly_outside :: "bgr \<Rightarrow> bgr \<Rightarrow> bgr \<Rightarrow> bool" where
  "strictly_outside lo hi p =
     (case lo of (l0, l1, l2) \<Rightarrow> case hi of (h0, h1, h2) \<Rightarrow> case p of (c0, c1, c2) \<Rightarrow>
        (c0 < l0 \<or> h0 < c0) \<and> (c1 < l1 \<or> h1 < c1) \<and> (c2 < l2 \<or> h2 < c2))"

text \<open>
  No pixel of the image within 7 rows and 7 columns of (i, j), the pixel itself included,
  has the border colour. These are the pixels a 15 x 15 kernel anchored at its centre
  covers when it sits on (i, j).
\<close>

definition no_border_near :: "bgr grid \<Rightarrow> nat \<Rightarrow> nat \<Rightarrow> bool" where
  "no_border_near a i j =
     list_all (\<lambda>y. list_all (\<lambda>x. \<not> in_bounds lower upper (a ! y ! x))
                       [j - 7 ..< min (length (a ! y)) (j + 8)])
       [i - 7 ..< min (length a) (i + 8)]"

text \<open>No pixel of the image has the border colour.\<close>

definition none_in_range :: "bgr grid \<Rightarrow> bool" where
  "none_in_range a = list_all (list_all (\<lambda>p. \<not> in_bounds lower upper p)) a"

text \<open>Every sample of a single-channel image is 0 or 255.\<close>

definition binary :: "u8 grid \<Rightarrow> bool" where
  "binary g = list_all (list_all (\<lambda>v. v = 0 \<or> v = 255)) g"

section \<open>The output the specification gives\<close>

text \<open>
  The specification gives the output for an image without border pixels as
  \<^verbatim>\<open>255 - open(otsu_threshold(grayscale(input)))\<close>. The definitions of this section
  follow the specification's words for each of these operations and use none of the
  script's operations above; the grayscale combination and Otsu's level are the same two
  parameters.

  Grayscale: every pixel through the luminance-weighted combination of its channels.
\<close>

definition spec_grayscale :: "(bgr \<Rightarrow> u8) \<Rightarrow> bgr grid \<Rightarrow> u8 grid" where
  "spec_grayscale weights a = map (\<lambda>row. map weights row) a"

text \<open>
  Otsu threshold: a binary image, 0 or 255 per pixel; a sample above the level that
  Otsu's method selects for the image becomes 255, the others 0.
\<close>

definition spec_otsu_threshold :: "(u8 grid \<Rightarrow> u8) \<Rightarrow> u8 grid \<Rightarrow> u8 grid" where
  "spec_otsu_threshold level g = map (\<lambda>row. map (\<lambda>v. if v \<le> level g then 0 else 255) row) g"

text \<open>
  The samples of the image that a square of side \<open>n\<close> centred on (i, j) covers: those
  within \<open>n div 2\<close> rows and \<open>n div 2\<close> columns of (i, j).
\<close>

definition square_around :: "nat \<Rightarrow> u8 grid \<Rightarrow> nat \<Rightarrow> nat \<Rightarrow> u8 list" where
  "square_around n g i j =
     concat (map (\<lambda>y. map (\<lambda>x. g ! y ! x)
                          [j - n div 2 ..< min (length (g ! y)) (j + n div 2 + 1)])
               [i - n div 2 ..< min (length g) (i + n div 2 + 1)])"

text \<open>
  Erosion shrinks the foreground: the minimum over the square. Dilation expands it: the
  maximum over the square. The open is erosion followed by dilation.
\<close>

definition spec_erosion :: "nat \<Rightarrow> u8 grid \<Rightarrow> u8 grid" where
  "spec_erosion n g =
     map (\<lambda>i. map (\<lambda>j. Min (set (square_around n g i j))) [0..<length (g ! i)]) [0..<length g]"

definition spec_dilation :: "nat \<Rightarrow> u8 grid \<Rightarrow> u8 grid" where
  "spec_dilation n g =
     map (\<lambda>i. map (\<lambda>j. Max (set (square_around n g i j))) [0..<length (g ! i)]) [0..<length g]"

definition spec_open :: "nat \<Rightarrow> u8 grid \<Rightarrow> u8 grid" where
  "spec_open n g = spec_dilation n (spec_erosion n g)"

text \<open>Inversion: 255 minus the value, as a subtraction of natural numbers.\<close>

definition spec_inversion :: "u8 grid \<Rightarrow> u8 grid" where
  "spec_inversion g = map (\<lambda>row. map (\<lambda>v. of_nat (255 - unat v)) row) g"

definition spec_output :: "(bgr \<Rightarrow> u8) \<Rightarrow> (u8 grid \<Rightarrow> u8) \<Rightarrow> bgr grid \<Rightarrow> u8 grid" where
  "spec_output weights level a =
     spec_inversion (spec_open 17 (spec_otsu_threshold level (spec_grayscale weights a)))"

section \<open>Shapes\<close>

lemma shape_inRange: "shape (inRange a lo hi) = shape a"
  by (simp add: shape_def inRange_def)

lemma shape_dilate: "shape (dilate g k) = shape g"
  unfolding shape_def dilate_def by (rule nth_equalityI) simp_all

lemma shape_erode: "shape (erode g k) = shape g"
  unfolding shape_def erode_def by (rule nth_equalityI) simp_all

lemma shape_morphologyEx: "shape (morphologyEx g op k) = shape g"
  by (cases op) (simp_all add: morphologyEx_def shape_dilate shape_erode)

lemma shape_mask_assign: "shape m = shape a \<Longrightarrow> shape (mask_assign a m v) = shape a"
proof -
  assume h: "shape m = shape a"
  then have len: "length m = length a"
    unfolding shape_def by (rule map_eq_imp_length_eq)
  have row: "length (m ! i) = length (a ! i)" if "i < length a" for i
  proof -
    have "map length m ! i = map length a ! i" using h by (simp add: shape_def)
    then show ?thesis using that len by simp
  qed
  show ?thesis
    unfolding shape_def mask_assign_def
    by (rule nth_equalityI) (simp_all add: len row)
qed

lemma shape_cvtColor: "shape (cvtColor f a) = shape a"
  by (simp add: shape_def cvtColor_def)

lemma shape_threshold: "shape (threshold f g v) = shape g"
  by (simp add: shape_def threshold_def Let_def)

lemma shape_invert: "shape (invert g) = shape g"
  by (simp add: shape_def invert_def)

lemma has_shape_iff: "has_shape g h w \<longleftrightarrow> shape g = replicate h w"
  unfolding has_shape_def shape_def list_all_iff
  by (metis map_replicate_const length_map map_eq_conv length_replicate)

section \<open>The states of a run\<close>

text \<open>
  \<open>run e n\<close> for each \<open>n\<close> up to the wait loop, when \<^verbatim>\<open>imread\<close> returns an image; then
  the wait loop; then the run in which \<^verbatim>\<open>imread\<close> returns \<^verbatim>\<open>None\<close>.
\<close>

lemma shape_dilated_mask: "shape (dilated_mask a) = shape a"
  by (simp add: dilated_mask_def border_mask_def shape_morphologyEx shape_inRange)

lemma run_Suc: "run e (Suc n) = step e (run e n)"
  by (simp add: run_def)

lemma run_1: "run e (Suc 0) = init\<lparr>img := disk e ''test.png'', pc := L12\<rparr>"
  by (simp add: run_def step_def init_def)

lemma run_2:
  assumes "disk e ''test.png'' = Some a"
  shows "run e 2 = init\<lparr>img := Some a, mask := border_mask a, pc := L15\<rparr>"
proof -
  have "run e 2 = step e (run e (Suc 0))"
    unfolding run_def by (simp add: eval_nat_numeral)
  then show ?thesis using assms by (simp add: run_1 step_def init_def border_mask_def)
qed

lemma run_3:
  assumes "disk e ''test.png'' = Some a"
  shows "run e 3 = init\<lparr>img := Some a, mask := border_mask a,
                        kernel := getStructuringElement (15, 15), pc := L16\<rparr>"
proof -
  have "run e 3 = step e (run e 2)"
    unfolding run_def by (simp add: eval_nat_numeral)
  then show ?thesis
    by (simp add: run_2 [OF assms] step_def init_def)
qed

lemma run_4:
  assumes "disk e ''test.png'' = Some a"
  shows "run e 4 = init\<lparr>img := Some a, mask := dilated_mask a,
                        kernel := getStructuringElement (15, 15), pc := L19\<rparr>"
proof -
  have "run e 4 = step e (run e 3)"
    unfolding run_def by (simp add: eval_nat_numeral)
  then show ?thesis
    by (simp add: run_3 [OF assms] step_def init_def dilated_mask_def)
qed

lemma run_5:
  assumes "disk e ''test.png'' = Some a"
  shows "run e 5 = init\<lparr>img := Some (recolored a), mask := dilated_mask a,
                        kernel := getStructuringElement (15, 15), pc := L22\<rparr>"
proof -
  have "run e 5 = step e (run e 4)"
    unfolding run_def by (simp add: eval_nat_numeral)
  then show ?thesis
    by (simp add: run_4 [OF assms] step_def init_def recolored_def shape_dilated_mask)
qed

lemma run_6:
  assumes "disk e ''test.png'' = Some a"
  shows "run e 6 = init\<lparr>img := Some (recolored a), mask := dilated_mask a,
                        kernel := getStructuringElement (15, 15), gray := grayed e a,
                        pc := L25\<rparr>"
proof -
  have "run e 6 = step e (run e 5)"
    unfolding run_def by (simp add: eval_nat_numeral)
  then show ?thesis
    by (simp add: run_5 [OF assms] step_def init_def grayed_def)
qed

lemma run_7:
  assumes "disk e ''test.png'' = Some a"
  shows "run e 7 = init\<lparr>img := Some (recolored a), mask := dilated_mask a,
                        kernel := getStructuringElement (15, 15), gray := grayed e a,
                        thresh := threshed e a, pc := L28\<rparr>"
proof -
  have "run e 7 = step e (run e 6)"
    unfolding run_def by (simp add: eval_nat_numeral)
  then show ?thesis
    by (simp add: run_6 [OF assms] step_def init_def threshed_def)
qed

lemma run_8:
  assumes "disk e ''test.png'' = Some a"
  shows "run e 8 = init\<lparr>img := Some (recolored a), mask := dilated_mask a,
                        kernel := getStructuringElement (17, 17), gray := grayed e a,
                        thresh := threshed e a, pc := L29\<rparr>"
proof -
  have "run e 8 = step e (run e 7)"
    unfolding run_def by (simp add: eval_nat_numeral)
  then show ?thesis
    by (simp add: run_7 [OF assms] step_def init_def)
qed

lemma run_9:
  assumes "disk e ''test.png'' = Some a"
  shows "run e 9 = init\<lparr>img := Some (recolored a), mask := dilated_mask a,
                        kernel := getStructuringElement (17, 17), gray := grayed e a,
                        thresh := threshed e a, morph := opened e a, pc := L30\<rparr>"
proof -
  have "run e 9 = step e (run e 8)"
    unfolding run_def by (simp add: eval_nat_numeral)
  then show ?thesis
    by (simp add: run_8 [OF assms] step_def init_def opened_def)
qed

lemma run_10:
  assumes "disk e ''test.png'' = Some a"
  shows "run e 10 = init\<lparr>img := Some (recolored a), mask := dilated_mask a,
                         kernel := getStructuringElement (17, 17), gray := grayed e a,
                         thresh := threshed e a, morph := final e a, pc := L33\<rparr>"
proof -
  have "run e 10 = step e (run e 9)"
    unfolding run_def by (simp add: eval_nat_numeral)
  then show ?thesis
    by (simp add: run_9 [OF assms] step_def init_def final_def)
qed

lemma run_11:
  assumes "disk e ''test.png'' = Some a"
  shows "run e 11 = (run e 10)\<lparr>saved := (if writable e ''morph.jpg''
                                          then [''morph.jpg'' \<mapsto> final e a] else Map.empty),
                               pc := L35\<rparr>"
proof -
  have "run e 11 = step e (run e 10)"
    unfolding run_def by (simp add: eval_nat_numeral)
  then show ?thesis
    by (simp add: run_10 [OF assms] step_def init_def)
qed

lemma run_12:
  assumes "disk e ''test.png'' = Some a"
  shows "run e 12 = (run e 11)\<lparr>shown := [(''morph'', final e a)], pc := L36\<rparr>"
proof -
  have "run e 12 = step e (run e 11)"
    unfolding run_def by (simp add: eval_nat_numeral)
  then show ?thesis
    by (simp add: run_11 [OF assms] run_10 [OF assms] step_def init_def)
qed

lemma run_wait:
  assumes "disk e ''test.png'' = Some a"
  shows "\<exists>k p. (p = L36 \<or> p = Exited) \<and> run e (12 + n) = (run e 12)\<lparr>polls := k, pc := p\<rparr>"
proof (induction n)
  case 0
  have "run e 12 = (run e 12)\<lparr>polls := 0, pc := L36\<rparr>"
    by (simp add: run_12 [OF assms] run_11 [OF assms] run_10 [OF assms] init_def)
  then show ?case by auto
next
  case (Suc n)
  then obtain k p where p: "p = L36 \<or> p = Exited"
    and r: "run e (12 + n) = (run e 12)\<lparr>polls := k, pc := p\<rparr>" by blast
  have "run e (12 + Suc n) = step e (run e (12 + n))"
    using run_Suc [of e "12 + n"] by (simp only: add_Suc_right)
  then have st: "run e (12 + Suc n) = step e ((run e 12)\<lparr>polls := k, pc := p\<rparr>)"
    by (simp only: r)
  consider (exit) "p = L36" "key_pressed e k" | (poll) "p = L36" "\<not> key_pressed e k"
    | (over) "p = Exited"
    using p by blast
  then show ?case
  proof cases
    case exit
    then have "run e (12 + Suc n) = (run e 12)\<lparr>polls := k, pc := Exited\<rparr>"
      unfolding st by (simp add: step_def)
    then show ?thesis by blast
  next
    case poll
    then have "run e (12 + Suc n) = (run e 12)\<lparr>polls := Suc k, pc := L36\<rparr>"
      unfolding st by (simp add: step_def)
    then show ?thesis by blast
  next
    case over
    then have "run e (12 + Suc n) = (run e 12)\<lparr>polls := k, pc := Exited\<rparr>"
      unfolding st by (simp add: step_def)
    then show ?thesis by blast
  qed
qed

lemma run_wait_forever:
  assumes "disk e ''test.png'' = Some a" and "\<And>k. \<not> key_pressed e k"
  shows "run e (12 + n) = (run e 12)\<lparr>polls := n\<rparr>"
proof (induction n)
  case 0
  show ?case
    by (simp add: run_12 [OF assms(1)] run_11 [OF assms(1)] run_10 [OF assms(1)] init_def)
next
  case (Suc n)
  have "run e (12 + Suc n) = step e (run e (12 + n))"
    using run_Suc [of e "12 + n"] by (simp only: add_Suc_right)
  then show ?case
    by (simp add: Suc step_def assms(2) run_12 [OF assms(1)])
qed

lemma run_crash:
  assumes "disk e ''test.png'' = None"
  shows "run e (2 + n) = init\<lparr>pc := Raised CvError\<rparr>"
proof (induction n)
  case 0
  have "run e 2 = step e (run e (Suc 0))"
    unfolding run_def by (simp add: eval_nat_numeral)
  then have "run e 2 = init\<lparr>pc := Raised CvError\<rparr>"
    using assms by (simp add: run_1 step_def init_def)
  then show ?case by (simp only: add_0_right)
next
  case (Suc n)
  have "run e (2 + Suc n) = step e (run e (2 + n))"
    using run_Suc [of e "2 + n"] by (simp only: add_Suc_right)
  also have "\<dots> = step e (init\<lparr>pc := Raised CvError\<rparr>)"
    by (simp only: Suc)
  also have "\<dots> = init\<lparr>pc := Raised CvError\<rparr>"
    by (simp add: step_def init_def)
  finally show ?case .
qed

section \<open>Samples, windows and masks\<close>

text \<open>
  Facts about 8-bit samples, about the window of a kernel, and about the value of
  each stage at a position (i, j).
\<close>

lemma u8_top: "(x :: u8) \<le> 255"
proof -
  have "(255 :: u8) = - 1" by simp
  then show ?thesis by (simp only: word_n1_ge)
qed

lemma u8_ge_255: "(255 :: u8) \<le> x \<Longrightarrow> x = 255"
  using u8_top [of x] by simp

lemma unat_invert: "unat (255 - x :: u8) = 255 - unat x"
proof -
  have "x \<le> 255" by (rule u8_top)
  then have "unat (255 - x) = unat (255 :: u8) - unat x"
    by (rule unat_sub)
  then show ?thesis by simp
qed

lemma nth_inRange:
  "i < length a \<Longrightarrow> j < length (a ! i) \<Longrightarrow>
   inRange a lo hi ! i ! j = (if in_bounds lo hi (a ! i ! j) then 255 else 0)"
  by (simp add: inRange_def)

lemma nth_dilate:
  "i < length g \<Longrightarrow> j < length (g ! i) \<Longrightarrow>
   dilate g k ! i ! j = foldr max (window 0 k g i j) 0"
  by (simp add: dilate_def)

lemma nth_erode:
  "i < length g \<Longrightarrow> j < length (g ! i) \<Longrightarrow>
   erode g k ! i ! j = foldr min (window 255 k g i j) 255"
  by (simp add: erode_def)

lemma in_concat_map_upt:
  "v \<in> set (concat (map (\<lambda>y. map (f y) [0..<w]) [0..<h])) \<longleftrightarrow> (\<exists>y<h. \<exists>x<w. v = f y x)"
  by fastforce

lemma in_window:
  "v \<in> set (window bv (kw, kh) g i j) \<longleftrightarrow>
   (\<exists>dy<kh. \<exists>dx<kw.
      v = pixel_or bv g (int i + int dy - int (kh div 2)) (int j + int dx - int (kw div 2)))"
  unfolding window_def prod.case by (rule in_concat_map_upt)

lemma foldr_max_ge: "v \<in> set xs \<Longrightarrow> v \<le> foldr max xs (b :: u8)"
  by (induction xs) (auto simp: max_def)

lemma foldr_max_cases: "foldr max xs (b :: u8) = b \<or> foldr max xs b \<in> set xs"
  by (induction xs) (auto simp: max_def)

lemma foldr_min_cases: "foldr min xs (b :: u8) = b \<or> foldr min xs b \<in> set xs"
  by (induction xs) (auto simp: min_def)

lemma nth_mask_assign:
  assumes "shape m = shape a" and "i < length a" and "j < length (a ! i)"
  shows "mask_assign a m v ! i ! j = (if m ! i ! j = 255 then v else a ! i ! j)"
proof -
  have len: "length m = length a"
    using assms(1) unfolding shape_def by (rule map_eq_imp_length_eq)
  have "map length m ! i = map length a ! i" using assms(1) by (simp add: shape_def)
  then have row: "length (m ! i) = length (a ! i)" using assms(2) len by simp
  show ?thesis
    using assms(2,3) len row by (simp add: mask_assign_def)
qed

lemma centre_in_window:
  assumes "i < length g" and "j < length (g ! i)" and "0 < kw" and "0 < kh"
  shows "g ! i ! j \<in> set (window bv (kw, kh) g i j)"
proof -
  have "kh div 2 < kh" and "kw div 2 < kw" using assms(3,4) by simp_all
  moreover have "pixel_or bv g (int i + int (kh div 2) - int (kh div 2))
                   (int j + int (kw div 2) - int (kw div 2)) = g ! i ! j"
    using assms(1,2) by (simp add: pixel_or_def)
  ultimately show ?thesis
    unfolding in_window by metis
qed

lemma window_cases:
  assumes "v \<in> set (window bv (kw, kh) g i j)"
  shows "v = bv \<or> (\<exists>y x. y < length g \<and> x < length (g ! y)
            \<and> i \<le> y + kh div 2 \<and> y + kh div 2 < i + kh
            \<and> j \<le> x + kw div 2 \<and> x + kw div 2 < j + kw \<and> v = g ! y ! x)"
proof -
  from assms obtain dy dx where d: "dy < kh" "dx < kw"
    and v: "v = pixel_or bv g (int i + int dy - int (kh div 2))
                              (int j + int dx - int (kw div 2))"
    unfolding in_window by blast
  define Y where "Y = int i + int dy - int (kh div 2)"
  define X where "X = int j + int dx - int (kw div 2)"
  have v': "v = pixel_or bv g Y X" using v by (simp only: Y_def X_def)
  show ?thesis
  proof (cases "0 \<le> Y \<and> Y < int (length g) \<and> 0 \<le> X \<and> X < int (length (g ! nat Y))")
    case True
    then have "v = g ! nat Y ! nat X" using v' by (simp add: pixel_or_def)
    moreover have "nat Y < length g" using True by linarith
    moreover have "nat X < length (g ! nat Y)" using True by linarith
    moreover have "i \<le> nat Y + kh div 2" and "nat Y + kh div 2 < i + kh"
      using True d(1) unfolding Y_def by linarith+
    moreover have "j \<le> nat X + kw div 2" and "nat X + kw div 2 < j + kw"
      using True d(2) unfolding X_def by linarith+
    ultimately show ?thesis by blast
  next
    case False
    then have "v = bv" using v' by (simp only: pixel_or_def if_False)
    then show ?thesis by simp
  qed
qed

lemma window_member:
  assumes "y < length g" and "x < length (g ! y)"
    and "i \<le> y + kh div 2" and "y + kh div 2 < i + kh"
    and "j \<le> x + kw div 2" and "x + kw div 2 < j + kw"
  shows "g ! y ! x \<in> set (window bv (kw, kh) g i j)"
proof -
  define dy where "dy = y + kh div 2 - i"
  define dx where "dx = x + kw div 2 - j"
  have "dy < kh" and "dx < kw" using assms(3-6) unfolding dy_def dx_def by linarith+
  moreover have "int i + int dy - int (kh div 2) = int y"
    using assms(3) unfolding dy_def by linarith
  moreover have "int j + int dx - int (kw div 2) = int x"
    using assms(5) unfolding dx_def by linarith
  moreover have "pixel_or bv g (int y) (int x) = g ! y ! x"
    using assms(1,2) by (simp add: pixel_or_def)
  ultimately show ?thesis
    unfolding in_window by metis
qed

lemma shape_length: "shape g = shape a \<Longrightarrow> length g = length a"
  unfolding shape_def by (rule map_eq_imp_length_eq)

lemma shape_row_length:
  assumes "shape g = shape a" and "i < length a"
  shows "length (g ! i) = length (a ! i)"
proof -
  have "map length g ! i = map length a ! i" using assms(1) by (simp add: shape_def)
  then show ?thesis using assms(2) shape_length [OF assms(1)] by simp
qed

lemma grid_eqI:
  assumes "shape g = shape a"
    and "\<And>i j. i < length a \<Longrightarrow> j < length (a ! i) \<Longrightarrow> g ! i ! j = a ! i ! j"
  shows "g = a"
proof (rule nth_equalityI)
  show "length g = length a" by (rule shape_length [OF assms(1)])
next
  fix i assume "i < length g"
  then have i: "i < length a" by (simp add: shape_length [OF assms(1)])
  show "g ! i = a ! i"
  proof (rule nth_equalityI)
    show "length (g ! i) = length (a ! i)" by (rule shape_row_length [OF assms(1) i])
  next
    fix j assume "j < length (g ! i)"
    then have "j < length (a ! i)" by (simp add: shape_row_length [OF assms(1) i])
    then show "g ! i ! j = a ! i ! j" by (rule assms(2) [OF i])
  qed
qed

lemma shape_border_mask: "shape (border_mask a) = shape a"
  by (simp add: border_mask_def shape_inRange)

lemma nth_border_mask:
  "i < length a \<Longrightarrow> j < length (a ! i) \<Longrightarrow>
   border_mask a ! i ! j = (if in_bounds lower upper (a ! i ! j) then 255 else 0)"
  by (simp add: border_mask_def nth_inRange)

lemma nth_dilated_mask_window:
  assumes "i < length a" and "j < length (a ! i)"
  shows "dilated_mask a ! i ! j = foldr max (window 0 (15, 15) (border_mask a) i j) 0"
proof -
  have "i < length (border_mask a)"
    using assms(1) by (simp add: shape_length [OF shape_border_mask])
  moreover have "j < length (border_mask a ! i)"
    using assms by (simp add: shape_row_length [OF shape_border_mask])
  ultimately show ?thesis
    by (simp add: dilated_mask_def morphologyEx_def getStructuringElement_def nth_dilate)
qed

lemma nth_dilated_mask:
  assumes "i < length a" and "j < length (a ! i)"
  shows "dilated_mask a ! i ! j = (if no_border_near a i j then 0 else 255)"
proof -
  let ?w = "window 0 (15, 15) (border_mask a) i j"
  have d: "dilated_mask a ! i ! j = foldr max ?w 0"
    by (rule nth_dilated_mask_window [OF assms])
  show ?thesis
  proof (cases "no_border_near a i j")
    case True
    have "v = 0" if "v \<in> set ?w" for v
    proof -
      from window_cases [OF that] consider "v = 0"
        | y x where "y < length (border_mask a)" "x < length (border_mask a ! y)"
            "i \<le> y + 7" "y + 7 < i + 15" "j \<le> x + 7" "x + 7 < j + 15"
            "v = border_mask a ! y ! x"
        by auto
      then show ?thesis
      proof cases
        case 1
        then show ?thesis .
      next
        case 2
        have y: "y < length a"
          using 2(1) by (simp add: shape_length [OF shape_border_mask])
        have x: "x < length (a ! y)"
          using 2(2) y by (simp add: shape_row_length [OF shape_border_mask])
        have "y \<in> set [i - 7 ..< min (length a) (i + 8)]"
          using y 2(3,4) by simp
        moreover have "x \<in> set [j - 7 ..< min (length (a ! y)) (j + 8)]"
          using x 2(5,6) by simp
        ultimately have "\<not> in_bounds lower upper (a ! y ! x)"
          using True unfolding no_border_near_def list_all_iff by blast
        then show ?thesis using 2(7) y x by (simp add: nth_border_mask)
      qed
    qed
    then have "foldr max ?w 0 = 0" using foldr_max_cases [of ?w 0] by blast
    then show ?thesis using True d by simp
  next
    case False
    then obtain y x where yx: "y \<in> set [i - 7 ..< min (length a) (i + 8)]"
        "x \<in> set [j - 7 ..< min (length (a ! y)) (j + 8)]"
        "in_bounds lower upper (a ! y ! x)"
      unfolding no_border_near_def list_all_iff by blast
    have y: "y < length a" and x: "x < length (a ! y)" using yx(1,2) by simp_all
    have "border_mask a ! y ! x \<in> set ?w"
    proof (rule window_member)
      show "y < length (border_mask a)"
        using y by (simp add: shape_length [OF shape_border_mask])
      show "x < length (border_mask a ! y)"
        using x y by (simp add: shape_row_length [OF shape_border_mask])
      show "i \<le> y + 15 div 2" using yx(1) by (simp; linarith)
      show "y + 15 div 2 < i + 15" using yx(1) by (simp; linarith)
      show "j \<le> x + 15 div 2" using yx(2) by (simp; linarith)
      show "x + 15 div 2 < j + 15" using yx(2) by (simp; linarith)
    qed
    then have "255 \<in> set ?w" using yx(3) y x by (simp add: nth_border_mask)
    then have "255 \<le> foldr max ?w 0" by (rule foldr_max_ge)
    then have "foldr max ?w 0 = 255" by (rule u8_ge_255)
    then show ?thesis using False d by simp
  qed
qed

lemma nth_recolored:
  assumes "i < length a" and "j < length (a ! i)"
  shows "recolored a ! i ! j = (if dilated_mask a ! i ! j = 255 then white else a ! i ! j)"
  unfolding recolored_def by (rule nth_mask_assign [OF shape_dilated_mask assms])

lemma shape_recolored: "shape (recolored a) = shape a"
  unfolding recolored_def by (rule shape_mask_assign [OF shape_dilated_mask])

lemma disk_env_of: "disk (env_of a) ''test.png'' = Some a"
  by (simp add: env_of_def)

lemma binary_nth:
  "binary g \<longleftrightarrow> (\<forall>i<length g. \<forall>j<length (g ! i). g ! i ! j = 0 \<or> g ! i ! j = 255)"
  by (simp add: binary_def list_all_length)

lemma binary_threshold: "binary (threshold f g 255)"
  by (auto simp: binary_def threshold_def Let_def list_all_iff)

lemma binary_dilate:
  assumes "binary g"
  shows "binary (dilate g k)"
proof -
  obtain kw kh where k: "k = (kw, kh)" by (cases k)
  have "dilate g k ! i ! j = 0 \<or> dilate g k ! i ! j = 255"
    if "i < length (dilate g k)" and "j < length (dilate g k ! i)" for i j
  proof -
    have i: "i < length g" using that(1) by (simp add: dilate_def)
    have j: "j < length (g ! i)" using that(2) i by (simp add: dilate_def)
    let ?w = "window 0 (kw, kh) g i j"
    have "foldr max ?w 0 = 0 \<or> foldr max ?w 0 \<in> set ?w" by (rule foldr_max_cases)
    moreover have "v = 0 \<or> v = 255" if "v \<in> set ?w" for v
      using window_cases [OF that] assms unfolding binary_nth by blast
    ultimately have "foldr max ?w 0 = 0 \<or> foldr max ?w 0 = 255" by blast
    then show ?thesis using i j by (simp add: nth_dilate k)
  qed
  then show ?thesis unfolding binary_nth by blast
qed

lemma binary_erode:
  assumes "binary g"
  shows "binary (erode g k)"
proof -
  obtain kw kh where k: "k = (kw, kh)" by (cases k)
  have "erode g k ! i ! j = 0 \<or> erode g k ! i ! j = 255"
    if "i < length (erode g k)" and "j < length (erode g k ! i)" for i j
  proof -
    have i: "i < length g" using that(1) by (simp add: erode_def)
    have j: "j < length (g ! i)" using that(2) i by (simp add: erode_def)
    let ?w = "window 255 (kw, kh) g i j"
    have "foldr min ?w 255 = 255 \<or> foldr min ?w 255 \<in> set ?w" by (rule foldr_min_cases)
    moreover have "v = 0 \<or> v = 255" if "v \<in> set ?w" for v
      using window_cases [OF that] assms unfolding binary_nth by blast
    ultimately have "foldr min ?w 255 = 0 \<or> foldr min ?w 255 = 255" by blast
    then show ?thesis using i j by (simp add: nth_erode k)
  qed
  then show ?thesis unfolding binary_nth by blast
qed

lemma binary_invert: "binary g \<Longrightarrow> binary (invert g)"
  by (auto simp: binary_def invert_def list_all_iff)

lemma none_in_range_near:
  assumes "none_in_range a"
  shows "no_border_near a i j"
proof -
  have "\<not> in_bounds lower upper (a ! y ! x)" if "y < length a" and "x < length (a ! y)" for y x
  proof -
    have "a ! y \<in> set a" using that(1) by simp
    moreover have "a ! y ! x \<in> set (a ! y)" using that(2) by simp
    ultimately show ?thesis using assms unfolding none_in_range_def list_all_iff by blast
  qed
  then show ?thesis unfolding no_border_near_def list_all_iff by simp
qed

lemma recolored_unchanged:
  assumes "none_in_range a"
  shows "recolored a = a"
proof (rule grid_eqI)
  show "shape (recolored a) = shape a" by (rule shape_recolored)
next
  fix i j assume ij: "i < length a" "j < length (a ! i)"
  have "dilated_mask a ! i ! j = 0"
    using nth_dilated_mask [OF ij] none_in_range_near [OF assms] by simp
  then show "recolored a ! i ! j = a ! i ! j"
    using nth_recolored [OF ij] by simp
qed

lemma shape_final: "shape (final e a) = shape a"
  by (simp add: final_def opened_def threshed_def grayed_def shape_invert shape_morphologyEx
      shape_threshold shape_cvtColor shape_recolored)

lemma shape_opened: "shape (opened e a) = shape a"
  by (simp add: opened_def threshed_def grayed_def shape_morphologyEx
      shape_threshold shape_cvtColor shape_recolored)

lemma saved_from_11:
  assumes "disk e ''test.png'' = Some a"
  shows "saved (run e (11 + n)) = saved (run e 11)"
proof (cases n)
  case 0
  then show ?thesis by simp
next
  case (Suc m)
  obtain k p where "run e (12 + m) = (run e 12)\<lparr>polls := k, pc := p\<rparr>"
    using run_wait [OF assms, of m] by blast
  then have "saved (run e (12 + m)) = saved (run e 11)"
    by (simp add: run_12 [OF assms])
  moreover have "11 + n = 12 + m" using Suc by simp
  ultimately show ?thesis by (simp only:)
qed

lemma recolored_img_border: "recolored img_border = [[(255, 255, 255), (255, 255, 255)]]"
proof (rule grid_eqI)
  have "shape (recolored img_border) = shape img_border" by (rule shape_recolored)
  also have "\<dots> = shape [[(255, 255, 255), (255, 255, 255) :: bgr]]"
    by (simp add: shape_def img_border_def)
  finally show "shape (recolored img_border) = shape [[(255, 255, 255), (255, 255, 255) :: bgr]]" .
next
  fix i j
  assume "i < length [[(255, 255, 255), (255, 255, 255) :: bgr]]"
    and "j < length ([[(255, 255, 255), (255, 255, 255) :: bgr]] ! i)"
  then have ij: "i = 0" "j = 0 \<or> j = 1" by auto
  have i: "0 < length img_border" and j0: "0 < length (img_border ! 0)"
    and j1: "1 < length (img_border ! 0)"
    by (simp_all add: img_border_def)
  have n0: "\<not> no_border_near img_border 0 0" and n1: "\<not> no_border_near img_border 0 1"
    by (simp_all add: no_border_near_def img_border_def in_bounds_def lower_def upper_def)
  have a0: "recolored img_border ! 0 ! 0 = (255, 255, 255)"
    by (simp add: nth_recolored [OF i j0] nth_dilated_mask [OF i j0] n0 white_def)
  have a1: "recolored img_border ! 0 ! 1 = (255, 255, 255)"
    using nth_recolored [OF i j1] nth_dilated_mask [OF i j1] n1 by (simp add: white_def)
  show "recolored img_border ! i ! j = [[(255, 255, 255), (255, 255, 255)]] ! i ! j"
    using ij a0 a1 by auto
qed

section \<open>The script's operations and the specification's\<close>

text \<open>
  The script's 17 x 17 open, its grayscale conversion, its threshold and its inversion
  compute what the specification's operations give. For the morphological operators the
  border samples of the window do not change the maximum or the minimum, since the
  square around a position of the image always holds the sample at that position.
\<close>

lemma foldr_max_Max: "foldr max xs (b :: u8) = Max (insert b (set xs))"
proof (induction xs)
  case Nil
  show ?case by simp
next
  case (Cons x xs)
  have "Max (insert b (set (x # xs))) = Max (insert x (insert b (set xs)))"
    by (simp add: insert_commute)
  also have "\<dots> = max x (Max (insert b (set xs)))"
    by (rule Max_insert) simp_all
  finally show ?case using Cons by simp
qed

lemma foldr_min_Min: "foldr min xs (b :: u8) = Min (insert b (set xs))"
proof (induction xs)
  case Nil
  show ?case by simp
next
  case (Cons x xs)
  have "Min (insert b (set (x # xs))) = Min (insert x (insert b (set xs)))"
    by (simp add: insert_commute)
  also have "\<dots> = min x (Min (insert b (set xs)))"
    by (rule Min_insert) simp_all
  finally show ?case using Cons by simp
qed

lemma in_square_around:
  "v \<in> set (square_around n g i j) \<longleftrightarrow>
   (\<exists>y x. i - n div 2 \<le> y \<and> y < length g \<and> y < i + n div 2 + 1
        \<and> j - n div 2 \<le> x \<and> x < length (g ! y) \<and> x < j + n div 2 + 1 \<and> v = g ! y ! x)"
  unfolding square_around_def by fastforce

lemma centre_in_square:
  assumes "i < length g" and "j < length (g ! i)"
  shows "g ! i ! j \<in> set (square_around n g i j)"
  unfolding in_square_around using assms
  by (intro exI [of _ i] exI [of _ j]) simp

lemma window_square_17:
  "insert bv (set (window bv (17, 17) g i j)) = insert bv (set (square_around 17 g i j))"
proof (intro set_eqI iffI)
  fix v assume "v \<in> insert bv (set (window bv (17, 17) g i j))"
  then consider "v = bv" | "v \<in> set (window bv (17, 17) g i j)" by blast
  then show "v \<in> insert bv (set (square_around 17 g i j))"
  proof cases
    case 1
    then show ?thesis by simp
  next
    case 2
    from window_cases [OF 2] consider "v = bv"
      | y x where "y < length g" "x < length (g ! y)" "i \<le> y + 8" "y + 8 < i + 17"
          "j \<le> x + 8" "x + 8 < j + 17" "v = g ! y ! x"
      by auto
    then show ?thesis
    proof cases
      case 1
      then show ?thesis by simp
    next
      case 2
      have "i - 17 div 2 \<le> y \<and> y < length g \<and> y < i + 17 div 2 + 1
          \<and> j - 17 div 2 \<le> x \<and> x < length (g ! y) \<and> x < j + 17 div 2 + 1 \<and> v = g ! y ! x"
        using 2 by (simp; linarith)
      then have "v \<in> set (square_around 17 g i j)"
        unfolding in_square_around by blast
      then show ?thesis by simp
    qed
  qed
next
  fix v assume "v \<in> insert bv (set (square_around 17 g i j))"
  then consider "v = bv" | "v \<in> set (square_around 17 g i j)" by blast
  then show "v \<in> insert bv (set (window bv (17, 17) g i j))"
  proof cases
    case 1
    then show ?thesis by simp
  next
    case 2
    then obtain y x where yx: "i - 17 div 2 \<le> y" "y < length g" "y < i + 17 div 2 + 1"
        "j - 17 div 2 \<le> x" "x < length (g ! y)" "x < j + 17 div 2 + 1" "v = g ! y ! x"
      unfolding in_square_around by blast
    have "g ! y ! x \<in> set (window bv (17, 17) g i j)"
    proof (rule window_member)
      show "y < length g" by (rule yx(2))
      show "x < length (g ! y)" by (rule yx(5))
      show "i \<le> y + 17 div 2" using yx(1) by (simp; linarith)
      show "y + 17 div 2 < i + 17" using yx(3) by (simp; linarith)
      show "j \<le> x + 17 div 2" using yx(4) by (simp; linarith)
      show "x + 17 div 2 < j + 17" using yx(6) by (simp; linarith)
    qed
    then show ?thesis using yx(7) by simp
  qed
qed

lemma dilate_spec_nth:
  assumes "i < length g" and "j < length (g ! i)"
  shows "foldr max (window 0 (17, 17) g i j) 0 = Max (set (square_around 17 g i j))"
proof -
  let ?N = "set (square_around 17 g i j)"
  have ne: "?N \<noteq> {}" using centre_in_square [OF assms, of 17] by auto
  have "foldr max (window 0 (17, 17) g i j) 0 = Max (insert 0 (set (window 0 (17, 17) g i j)))"
    by (rule foldr_max_Max)
  also have "\<dots> = Max (insert 0 ?N)" by (simp only: window_square_17)
  also have "\<dots> = max 0 (Max ?N)" by (rule Max_insert [OF _ ne]) simp
  also have "\<dots> = Max ?N" by (simp add: max_def)
  finally show ?thesis .
qed

lemma erode_spec_nth:
  assumes "i < length g" and "j < length (g ! i)"
  shows "foldr min (window 255 (17, 17) g i j) 255 = Min (set (square_around 17 g i j))"
proof -
  let ?N = "set (square_around 17 g i j)"
  have ne: "?N \<noteq> {}" using centre_in_square [OF assms, of 17] by auto
  have "foldr min (window 255 (17, 17) g i j) 255
      = Min (insert 255 (set (window 255 (17, 17) g i j)))"
    by (rule foldr_min_Min)
  also have "\<dots> = Min (insert 255 ?N)" by (simp only: window_square_17)
  also have "\<dots> = min 255 (Min ?N)" by (rule Min_insert [OF _ ne]) simp
  also have "\<dots> = Min ?N" using u8_top [of "Min ?N"] by (simp add: min_def)
  finally show ?thesis .
qed

lemma dilate_spec: "dilate g (17, 17) = spec_dilation 17 g"
proof -
  have "map (\<lambda>j. foldr max (window 0 (17, 17) g i j) 0) [0..<length (g ! i)]
      = map (\<lambda>j. Max (set (square_around 17 g i j))) [0..<length (g ! i)]"
    if "i < length g" for i
    using that by (intro map_cong refl) (simp add: dilate_spec_nth)
  then show ?thesis
    unfolding dilate_def spec_dilation_def by (intro map_cong refl) simp
qed

lemma erode_spec: "erode g (17, 17) = spec_erosion 17 g"
proof -
  have "map (\<lambda>j. foldr min (window 255 (17, 17) g i j) 255) [0..<length (g ! i)]
      = map (\<lambda>j. Min (set (square_around 17 g i j))) [0..<length (g ! i)]"
    if "i < length g" for i
    using that by (intro map_cong refl) (simp add: erode_spec_nth)
  then show ?thesis
    unfolding erode_def spec_erosion_def by (intro map_cong refl) simp
qed

lemma open_spec: "morphologyEx g MORPH_OPEN (getStructuringElement (17, 17)) = spec_open 17 g"
  by (simp add: morphologyEx_def getStructuringElement_def spec_open_def erode_spec dilate_spec)

lemma cvtColor_spec: "cvtColor f a = spec_grayscale f a"
  by (simp add: cvtColor_def spec_grayscale_def)

lemma threshold_spec: "threshold level g 255 = spec_otsu_threshold level g"
  by (simp add: threshold_def spec_otsu_threshold_def Let_def not_less [symmetric])

lemma invert_sample: "255 - v = (of_nat (255 - unat v) :: u8)"
proof -
  have "of_nat (255 - unat v) = (of_nat (unat (255 - v)) :: u8)"
    by (simp only: unat_invert)
  then show ?thesis by simp
qed

lemma invert_spec: "invert g = spec_inversion g"
proof -
  have "(\<lambda>v :: u8. 255 - v) = (\<lambda>v. of_nat (255 - unat v))"
    by (rule ext) (rule invert_sample)
  then show ?thesis by (simp add: invert_def spec_inversion_def)
qed

lemma final_spec:
  assumes "recolored a = a"
  shows "final e a = spec_output (luma e) (otsu e) a"
  by (simp add: final_def opened_def threshed_def grayed_def assms spec_output_def
      open_spec cvtColor_spec threshold_spec invert_spec)

lemma recolored_far:
  assumes "i < length a" and "j < length (a ! i)" and "no_border_near a i j"
  shows "recolored a ! i ! j = a ! i ! j"
  by (simp add: nth_recolored [OF assms(1,2)] nth_dilated_mask [OF assms(1,2)] assms(3))

section \<open>Dimensions\<close>

text \<open>
  C1: when the image loads and has H rows of W pixels, every image and mask derived from
  it has H rows of W samples: the border mask (after line 12), the dilated mask (after
  line 16), the recolored image (after line 19), the grayscale image, the thresholded
  image, the opened image (after line 29) and the inverted image that is written out
  (after line 30).
\<close>

theorem dimensions_preserved:
  assumes "disk e ''test.png'' = Some a" and "has_shape a h w"
  shows "has_shape (mask (run e 2)) h w
       \<and> has_shape (mask (run e 4)) h w
       \<and> img (run e 5) = Some (recolored a) \<and> has_shape (recolored a) h w
       \<and> has_shape (gray (run e 6)) h w
       \<and> has_shape (thresh (run e 7)) h w
       \<and> has_shape (morph (run e 9)) h w
       \<and> has_shape (morph (run e 10)) h w"
proof -
  have s: "shape a = replicate h w" using assms(2) by (simp only: has_shape_iff)
  have "shape (border_mask a) = replicate h w" by (simp add: shape_border_mask s)
  then have 1: "has_shape (mask (run e 2)) h w"
    by (simp add: run_2 [OF assms(1)] has_shape_iff)
  have "shape (dilated_mask a) = replicate h w" by (simp add: shape_dilated_mask s)
  then have 2: "has_shape (mask (run e 4)) h w"
    by (simp add: run_4 [OF assms(1)] has_shape_iff)
  have 3: "img (run e 5) = Some (recolored a)" by (simp add: run_5 [OF assms(1)])
  have r: "shape (recolored a) = replicate h w" by (simp add: shape_recolored s)
  then have 4: "has_shape (recolored a) h w" by (simp only: has_shape_iff)
  have "shape (grayed e a) = replicate h w" by (simp add: grayed_def shape_cvtColor r)
  then have 5: "has_shape (gray (run e 6)) h w"
    by (simp add: run_6 [OF assms(1)] has_shape_iff)
  have "shape (threshed e a) = replicate h w"
    by (simp add: threshed_def grayed_def shape_threshold shape_cvtColor r)
  then have 6: "has_shape (thresh (run e 7)) h w"
    by (simp add: run_7 [OF assms(1)] has_shape_iff)
  have "shape (opened e a) = replicate h w" by (simp add: shape_opened s)
  then have 7: "has_shape (morph (run e 9)) h w"
    by (simp add: run_9 [OF assms(1)] has_shape_iff)
  have "shape (final e a) = replicate h w" by (simp add: shape_final s)
  then have 8: "has_shape (morph (run e 10)) h w"
    by (simp add: run_10 [OF assms(1)] has_shape_iff)
  from 1 2 3 4 5 6 7 8 show ?thesis by simp
qed

theorem dimensions_preserved_witness:
  "disk (env_of img_border) ''test.png'' = Some img_border
   \<and> has_shape img_border 1 2
   \<and> has_shape (mask (run (env_of img_border) 2)) 1 2
   \<and> has_shape (mask (run (env_of img_border) 4)) 1 2
   \<and> has_shape (recolored img_border) 1 2
   \<and> has_shape (gray (run (env_of img_border) 6)) 1 2
   \<and> has_shape (thresh (run (env_of img_border) 7)) 1 2
   \<and> has_shape (morph (run (env_of img_border) 9)) 1 2
   \<and> has_shape (morph (run (env_of img_border) 10)) 1 2"
proof -
  have h: "disk (env_of img_border) ''test.png'' = Some img_border"
    by (simp add: env_of_def)
  have s: "has_shape img_border 1 2" by (simp add: has_shape_def img_border_def)
  show ?thesis using h s dimensions_preserved [OF h s] by simp
qed

section \<open>Pixels outside the colour range\<close>

text \<open>
  C2, with the condition it lacks: a pixel whose three channels lie strictly outside the
  range, and which has no pixel of the border colour within 7 rows and 7 columns of it,
  is left unchanged by the border-isolation stage. Line 12 and line 16 do not assign
  \<open>img\<close>, and after line 19 the pixel at that position is the pixel that was loaded.
\<close>

theorem far_outside_pixel_unchanged:
  assumes "disk e ''test.png'' = Some a" and "i < length a" and "j < length (a ! i)"
    and "strictly_outside lower upper (a ! i ! j)" and "no_border_near a i j"
  shows "img (run e 4) = Some a \<and> img (run e 5) = Some (recolored a)
       \<and> recolored a ! i ! j = a ! i ! j"
proof -
  have 1: "img (run e 4) = Some a" by (simp add: run_4 [OF assms(1)])
  have 2: "img (run e 5) = Some (recolored a)" by (simp add: run_5 [OF assms(1)])
  have 3: "recolored a ! i ! j = a ! i ! j" by (rule recolored_far [OF assms(2,3,5)])
  from 1 2 3 show ?thesis by (simp only:)
qed

theorem far_outside_pixel_unchanged_witness:
  "disk (env_of img_far) ''test.png'' = Some img_far
   \<and> 0 < length img_far \<and> 9 < length (img_far ! 0)
   \<and> strictly_outside lower upper (img_far ! 0 ! 9)
   \<and> no_border_near img_far 0 9
   \<and> img (run (env_of img_far) 5) = Some (recolored img_far)
   \<and> recolored img_far ! 0 ! 9 = (1, 10, 10)"
proof -
  have h: "disk (env_of img_far) ''test.png'' = Some img_far"
    by (simp add: env_of_def)
  have i: "0 < length img_far" and j: "9 < length (img_far ! 0)"
    by (simp_all add: img_far_def)
  have p: "img_far ! 0 ! 9 = (1, 10, 10)" by (simp add: img_far_def)
  have s: "strictly_outside lower upper (img_far ! 0 ! 9)"
    by (simp add: p strictly_outside_def lower_def upper_def)
  have n: "no_border_near img_far 0 9"
    by (simp add: no_border_near_def img_far_def in_bounds_def lower_def upper_def)
  show ?thesis using h i j p s n far_outside_pixel_unchanged [OF h i j s n] by simp
qed

text \<open>
  C2, as it is stated, fails on \<open>img_border\<close>: the pixel at (0, 1) is (1, 10, 10),
  outside the range on every channel, and one column away from a pixel of the border
  colour; after line 19 it is white.
\<close>

theorem outside_pixel_recolored:
  "disk (env_of img_border) ''test.png'' = Some img_border
   \<and> img_border ! 0 ! 1 = (1, 10, 10)
   \<and> strictly_outside lower upper (img_border ! 0 ! 1)
   \<and> img (run (env_of img_border) 5) = Some [[(255, 255, 255), (255, 255, 255)]]"
proof -
  have h: "disk (env_of img_border) ''test.png'' = Some img_border"
    by (simp add: env_of_def)
  have p: "img_border ! 0 ! 1 = (1, 10, 10)" by (simp add: img_border_def)
  have s: "strictly_outside lower upper (1, 10, 10)"
    by (simp add: strictly_outside_def lower_def upper_def)
  have r: "img (run (env_of img_border) 5) = Some [[(255, 255, 255), (255, 255, 255)]]"
    by (simp add: run_5 [OF h] recolored_img_border)
  from h p s r show ?thesis by (simp only:)
qed

section \<open>Dilation of the border mask\<close>

text \<open>
  C3: every position that is 255 in the border mask (the mask after line 12) is 255 in
  the mask after the 15 x 15 dilation of line 16.
\<close>

theorem dilation_superset:
  assumes "disk e ''test.png'' = Some a" and "i < length a" and "j < length (a ! i)"
    and "mask (run e 2) ! i ! j = 255"
  shows "mask (run e 4) ! i ! j = 255"
proof -
  let ?w = "window 0 (15, 15) (border_mask a) i j"
  have m: "border_mask a ! i ! j = 255" using assms(4) by (simp add: run_2 [OF assms(1)])
  have "i < length (border_mask a)"
    using assms(2) by (simp add: shape_length [OF shape_border_mask])
  moreover have "j < length (border_mask a ! i)"
    using assms(2,3) by (simp add: shape_row_length [OF shape_border_mask])
  ultimately have "border_mask a ! i ! j \<in> set ?w"
    by (rule centre_in_window) simp_all
  then have "255 \<le> foldr max ?w 0" using m foldr_max_ge [of 255 ?w 0] by simp
  then have "foldr max ?w 0 = 255" by (rule u8_ge_255)
  then have "dilated_mask a ! i ! j = 255"
    by (simp add: nth_dilated_mask_window [OF assms(2,3)])
  then show ?thesis by (simp add: run_4 [OF assms(1)])
qed

theorem dilation_superset_witness:
  "disk (env_of img_border) ''test.png'' = Some img_border
   \<and> 0 < length img_border \<and> 0 < length (img_border ! 0)
   \<and> mask (run (env_of img_border) 2) ! 0 ! 0 = 255
   \<and> mask (run (env_of img_border) 4) ! 0 ! 0 = 255"
proof -
  have h: "disk (env_of img_border) ''test.png'' = Some img_border"
    by (simp add: env_of_def)
  have i: "0 < length img_border" and j: "0 < length (img_border ! 0)"
    by (simp_all add: img_border_def)
  have "mask (run (env_of img_border) 2) = border_mask img_border"
    by (simp add: run_2 [OF h])
  then have m: "mask (run (env_of img_border) 2) ! 0 ! 0 = 255"
    by (simp add: border_mask_def inRange_def in_bounds_def lower_def upper_def img_border_def)
  show ?thesis using h i j m dilation_superset [OF h i j m] by simp
qed

section \<open>Inversion\<close>

text \<open>
  C4: the image after line 29 is the 17 x 17 open of the thresholded image, and at every
  position the image after line 30, which is the one handed to \<^verbatim>\<open>cv2.imwrite\<close>, holds
  255 minus the value the opened image has there. The subtraction does not wrap.
\<close>

theorem output_is_inverted_open:
  assumes "disk e ''test.png'' = Some a" and "i < length a" and "j < length (a ! i)"
  shows "morph (run e 9) = morphologyEx (thresh (run e 7)) MORPH_OPEN (getStructuringElement (17, 17))
       \<and> morph (run e 10) ! i ! j = 255 - morph (run e 9) ! i ! j
       \<and> unat (morph (run e 10) ! i ! j) = 255 - unat (morph (run e 9) ! i ! j)
       \<and> saved (run e 11) ''morph.jpg''
           = (if writable e ''morph.jpg'' then Some (morph (run e 10)) else None)"
proof -
  have 1: "morph (run e 9)
      = morphologyEx (thresh (run e 7)) MORPH_OPEN (getStructuringElement (17, 17))"
    by (simp add: run_9 [OF assms(1)] run_7 [OF assms(1)] opened_def)
  have i: "i < length (opened e a)"
    using assms(2) by (simp add: shape_length [OF shape_opened])
  have j: "j < length (opened e a ! i)"
    using assms(2,3) by (simp add: shape_row_length [OF shape_opened])
  have "final e a ! i ! j = 255 - opened e a ! i ! j"
    using i j by (simp add: final_def invert_def)
  then have 2: "morph (run e 10) ! i ! j = 255 - morph (run e 9) ! i ! j"
    by (simp add: run_10 [OF assms(1)] run_9 [OF assms(1)])
  have 3: "unat (morph (run e 10) ! i ! j) = 255 - unat (morph (run e 9) ! i ! j)"
    by (simp only: 2 unat_invert)
  have 4: "saved (run e 11) ''morph.jpg''
      = (if writable e ''morph.jpg'' then Some (morph (run e 10)) else None)"
    by (simp add: run_11 [OF assms(1)] run_10 [OF assms(1)])
  from 1 2 3 4 show ?thesis by simp
qed

theorem output_is_inverted_open_witness:
  "disk (env_of img_border) ''test.png'' = Some img_border
   \<and> 0 < length img_border \<and> 1 < length (img_border ! 0)
   \<and> unat (morph (run (env_of img_border) 10) ! 0 ! 1)
       = 255 - unat (morph (run (env_of img_border) 9) ! 0 ! 1)
   \<and> saved (run (env_of img_border) 11) ''morph.jpg''
       = Some (morph (run (env_of img_border) 10))"
proof -
  have h: "disk (env_of img_border) ''test.png'' = Some img_border"
    by (simp add: env_of_def)
  have i: "0 < length img_border" and j: "1 < length (img_border ! 0)"
    by (simp_all add: img_border_def)
  have w: "writable (env_of img_border) ''morph.jpg''" by (simp add: env_of_def)
  show ?thesis using h i j w output_is_inverted_open [OF h i j] by (simp add: unat_invert)
qed

section \<open>An image without border pixels\<close>

text \<open>
  C5: when no pixel of the input has the border colour, the recolor step of line 19
  alters no pixel (the image after it is the image that was loaded), and the final image
  is the output the specification gives for the input itself: 255 minus the open of the
  Otsu threshold of the grayscale conversion of the input.
\<close>

theorem no_border_pixels_direct_output:
  assumes "disk e ''test.png'' = Some a" and "none_in_range a"
  shows "img (run e 4) = Some a \<and> img (run e 5) = Some a
       \<and> morph (run e 10) = spec_output (luma e) (otsu e) a"
proof -
  have r: "recolored a = a" by (rule recolored_unchanged [OF assms(2)])
  have 1: "img (run e 4) = Some a" by (simp add: run_4 [OF assms(1)])
  have 2: "img (run e 5) = Some a" by (simp add: run_5 [OF assms(1)] r)
  have 3: "morph (run e 10) = spec_output (luma e) (otsu e) a"
    by (simp add: run_10 [OF assms(1)] final_spec [OF r])
  from 1 2 3 show ?thesis by (simp only:)
qed

theorem no_border_pixels_direct_output_witness:
  "disk (env_of img_plain) ''test.png'' = Some img_plain
   \<and> none_in_range img_plain
   \<and> img (run (env_of img_plain) 5) = Some img_plain
   \<and> morph (run (env_of img_plain) 10)
       = spec_output (luma (env_of img_plain)) (otsu (env_of img_plain)) img_plain
   \<and> morph (run (env_of img_plain) 10) = [[255, 255]]"
proof -
  have h: "disk (env_of img_plain) ''test.png'' = Some img_plain"
    by (simp add: env_of_def)
  have n: "none_in_range img_plain"
    by (simp add: none_in_range_def img_plain_def in_bounds_def lower_def upper_def)
  have v: "spec_output (luma (env_of img_plain)) (otsu (env_of img_plain)) img_plain
      = [[255, 255]]"
    by code_simp
  show ?thesis using h n v no_border_pixels_direct_output [OF h n] by simp
qed

section \<open>The border mask\<close>

text \<open>
  C6: the mask after line 12 has the shape of the image, and its sample at (i, j) is 255
  when the three channels (c0, c1, c2) of the pixel at (i, j), in the order the image
  stores them, satisfy 0 <= c0 <= 0, 80 <= c1 <= 120 and 110 <= c2 <= 150, and 0
  otherwise.
\<close>

theorem border_mask_in_range:
  assumes "disk e ''test.png'' = Some a" and "i < length a" and "j < length (a ! i)"
    and "a ! i ! j = (c0, c1, c2)"
  shows "shape (mask (run e 2)) = shape a
       \<and> mask (run e 2) ! i ! j
           = (if 0 \<le> c0 \<and> c0 \<le> 0 \<and> 80 \<le> c1 \<and> c1 \<le> 120 \<and> 110 \<le> c2 \<and> c2 \<le> 150
              then 255 else 0)"
proof -
  have 1: "shape (mask (run e 2)) = shape a"
    by (simp add: run_2 [OF assms(1)] shape_border_mask)
  have "in_bounds lower upper (c0, c1, c2)
      \<longleftrightarrow> 0 \<le> c0 \<and> c0 \<le> 0 \<and> 80 \<le> c1 \<and> c1 \<le> 120 \<and> 110 \<le> c2 \<and> c2 \<le> 150"
    by (simp add: in_bounds_def lower_def upper_def)
  then have 2: "mask (run e 2) ! i ! j
      = (if 0 \<le> c0 \<and> c0 \<le> 0 \<and> 80 \<le> c1 \<and> c1 \<le> 120 \<and> 110 \<le> c2 \<and> c2 \<le> 150
         then 255 else 0)"
    using assms(2,3,4) by (simp add: run_2 [OF assms(1)] nth_border_mask)
  from 1 2 show ?thesis by (simp only:)
qed

theorem border_mask_in_range_witness:
  "disk (env_of img_border) ''test.png'' = Some img_border
   \<and> 0 < length img_border \<and> 0 < length (img_border ! 0)
   \<and> img_border ! 0 ! 0 = (0, 100, 130)
   \<and> shape (mask (run (env_of img_border) 2)) = shape img_border
   \<and> mask (run (env_of img_border) 2) ! 0 ! 0 = 255"
proof -
  have h: "disk (env_of img_border) ''test.png'' = Some img_border"
    by (simp add: env_of_def)
  have i: "0 < length img_border" and j: "0 < length (img_border ! 0)"
    and p: "img_border ! 0 ! 0 = (0, 100, 130)"
    by (simp_all add: img_border_def)
  show ?thesis using h i j p border_mask_in_range [OF h i j p] by simp
qed

section \<open>Recoloring\<close>

text \<open>
  C7: line 19 replaces the image held by the variable \<open>img\<close> itself. Afterwards the
  pixel at (i, j) is (255, 255, 255) when the dilated mask is 255 there, and the pixel
  that was loaded otherwise. This happens before the grayscale conversion: after line 19
  \<open>gray\<close> is still unassigned, and line 22 converts the recolored image.
\<close>

theorem recolor_in_place:
  assumes "disk e ''test.png'' = Some a" and "i < length a" and "j < length (a ! i)"
  shows "img (run e 4) = Some a \<and> pc (run e 4) = L19
       \<and> img (run e 5) = Some (recolored a) \<and> pc (run e 5) = L22
       \<and> shape (recolored a) = shape a
       \<and> recolored a ! i ! j
           = (if mask (run e 4) ! i ! j = 255 then (255, 255, 255) else a ! i ! j)
       \<and> gray (run e 5) = []
       \<and> gray (run e 6) = cvtColor (luma e) (recolored a)"
proof -
  have 1: "img (run e 4) = Some a \<and> pc (run e 4) = L19"
    by (simp add: run_4 [OF assms(1)])
  have 2: "img (run e 5) = Some (recolored a) \<and> pc (run e 5) = L22"
    by (simp add: run_5 [OF assms(1)])
  have 3: "recolored a ! i ! j
      = (if mask (run e 4) ! i ! j = 255 then (255, 255, 255) else a ! i ! j)"
    by (simp add: run_4 [OF assms(1)] nth_recolored [OF assms(2,3)] white_def)
  have 4: "gray (run e 5) = []" by (simp add: run_5 [OF assms(1)] init_def)
  have 5: "gray (run e 6) = cvtColor (luma e) (recolored a)"
    by (simp add: run_6 [OF assms(1)] grayed_def)
  from 1 2 3 4 5 shape_recolored [of a] show ?thesis by (simp only:)
qed

theorem recolor_in_place_witness:
  "disk (env_of img_border) ''test.png'' = Some img_border
   \<and> 0 < length img_border \<and> 1 < length (img_border ! 0)
   \<and> img (run (env_of img_border) 5) = Some (recolored img_border)
   \<and> recolored img_border ! 0 ! 1
       = (if mask (run (env_of img_border) 4) ! 0 ! 1 = 255 then (255, 255, 255)
          else img_border ! 0 ! 1)
   \<and> gray (run (env_of img_border) 5) = []"
proof -
  have h: "disk (env_of img_border) ''test.png'' = Some img_border"
    by (simp add: env_of_def)
  have i: "0 < length img_border" and j: "1 < length (img_border ! 0)"
    by (simp_all add: img_border_def)
  show ?thesis using h i j recolor_in_place [OF h i j] by simp
qed

section \<open>Binary output\<close>

text \<open>
  C8: when every sample of the thresholded image is 0 or 255, every sample of the final
  image (after the open of line 29 and the inversion of line 30) is 0 or 255.
\<close>

theorem binary_output:
  assumes "disk e ''test.png'' = Some a" and "binary (thresh (run e 7))"
  shows "binary (morph (run e 10))"
proof -
  have "binary (threshed e a)" using assms(2) by (simp add: run_7 [OF assms(1)])
  then have "binary (erode (threshed e a) (17, 17))" by (rule binary_erode)
  then have "binary (dilate (erode (threshed e a) (17, 17)) (17, 17))" by (rule binary_dilate)
  then have "binary (opened e a)"
    by (simp add: opened_def morphologyEx_def getStructuringElement_def)
  then have "binary (final e a)" unfolding final_def by (rule binary_invert)
  then show ?thesis by (simp add: run_10 [OF assms(1)])
qed

theorem binary_output_witness:
  "disk (env_of img_border) ''test.png'' = Some img_border
   \<and> binary (thresh (run (env_of img_border) 7))
   \<and> binary (morph (run (env_of img_border) 10))"
proof -
  have h: "disk (env_of img_border) ''test.png'' = Some img_border"
    by (simp add: env_of_def)
  have b: "binary (thresh (run (env_of img_border) 7))"
    by (simp add: run_7 [OF h] threshed_def binary_threshold)
  show ?thesis using h b binary_output [OF h b] by simp
qed

section \<open>Load failure\<close>

text \<open>
  C9: when \<^verbatim>\<open>test.png\<close> is missing or is not a readable image, \<^verbatim>\<open>imread\<close> returns
  \<^verbatim>\<open>None\<close> and the script stops at line 12 with a fault raised by \<^verbatim>\<open>cv2.inRange\<close>:
  from the second step on the program point is \<open>Raised CvError\<close>, and at no moment of the
  run has \<^verbatim>\<open>morph.jpg\<close> been written or a window been shown.
\<close>

theorem load_failure_raises:
  assumes "disk e ''test.png'' = None"
  shows "pc (run e (2 + n)) = Raised CvError
       \<and> saved (run e m) ''morph.jpg'' = None
       \<and> shown (run e m) = []"
proof -
  have a: "pc (run e (2 + n)) = Raised CvError"
    by (simp only: run_crash [OF assms]) simp
  have b: "saved (run e m) ''morph.jpg'' = None \<and> shown (run e m) = []"
  proof (cases "m < 2")
    case True
    then have "m = 0 \<or> m = Suc 0" by arith
    then show ?thesis
    proof
      assume "m = 0"
      then show ?thesis by (simp add: run_def init_def)
    next
      assume "m = Suc 0"
      then show ?thesis by (simp add: run_1 init_def)
    qed
  next
    case False
    then have "2 \<le> m" by simp
    then obtain k where k: "m = 2 + k" by (auto dest: le_Suc_ex)
    show ?thesis unfolding k
      by (simp only: run_crash [OF assms]) (simp add: init_def)
  qed
  from a b show ?thesis by simp
qed

theorem load_failure_raises_witness:
  "disk env_missing ''test.png'' = None
   \<and> pc (run env_missing (2 + 5)) = Raised CvError
   \<and> saved (run env_missing 9) ''morph.jpg'' = None
   \<and> shown (run env_missing 9) = []"
proof -
  have h: "disk env_missing ''test.png'' = None" by (simp add: env_missing_def)
  show ?thesis using h load_failure_raises [OF h, of 5 9] by simp
qed

section \<open>Writing before showing\<close>

text \<open>
  C10: on a run in which the image loads and \<^verbatim>\<open>morph.jpg\<close> can be written, the file does
  not exist before line 33, and holds the final image once line 33 has run, when nothing
  has been shown yet and \<^verbatim>\<open>waitKey\<close> has not polled. The file holds the final image
  in every later state of the run, and when no key is ever pressed the script stays in
  the wait of line 36 for ever.
\<close>

theorem saved_before_display:
  assumes "disk e ''test.png'' = Some a" and "writable e ''morph.jpg''"
  shows "saved (run e 10) ''morph.jpg'' = None \<and> pc (run e 10) = L33
       \<and> saved (run e 11) ''morph.jpg'' = Some (morph (run e 10))
       \<and> pc (run e 11) = L35 \<and> shown (run e 11) = [] \<and> polls (run e 11) = 0
       \<and> saved (run e (11 + n)) ''morph.jpg'' = Some (morph (run e 10))
       \<and> ((\<forall>k. \<not> key_pressed e k) \<longrightarrow> pc (run e (12 + n)) = L36)"
proof -
  have 1: "saved (run e 10) ''morph.jpg'' = None \<and> pc (run e 10) = L33"
    by (simp add: run_10 [OF assms(1)] init_def)
  have 2: "saved (run e 11) ''morph.jpg'' = Some (morph (run e 10))"
    using assms(2) by (simp add: run_11 [OF assms(1)] run_10 [OF assms(1)])
  have 3: "pc (run e 11) = L35 \<and> shown (run e 11) = [] \<and> polls (run e 11) = 0"
    by (simp add: run_11 [OF assms(1)] run_10 [OF assms(1)] init_def)
  have 4: "saved (run e (11 + n)) ''morph.jpg'' = Some (morph (run e 10))"
    by (simp only: saved_from_11 [OF assms(1)] 2)
  have 5: "pc (run e (12 + n)) = L36" if "\<forall>k. \<not> key_pressed e k"
  proof -
    have "run e (12 + n) = (run e 12)\<lparr>polls := n\<rparr>"
      by (rule run_wait_forever [OF assms(1)]) (simp add: that)
    then show ?thesis by (simp add: run_12 [OF assms(1)])
  qed
  from 1 2 3 4 5 show ?thesis by (simp only:) simp
qed

theorem saved_before_display_witness:
  "disk (env_of img_border) ''test.png'' = Some img_border
   \<and> writable (env_of img_border) ''morph.jpg''
   \<and> (\<forall>k. \<not> key_pressed (env_of img_border) k)
   \<and> saved (run (env_of img_border) 10) ''morph.jpg'' = None
   \<and> saved (run (env_of img_border) 11) ''morph.jpg'' = Some (morph (run (env_of img_border) 10))
   \<and> shown (run (env_of img_border) 11) = []
   \<and> saved (run (env_of img_border) (11 + 100)) ''morph.jpg''
       = Some (morph (run (env_of img_border) 10))
   \<and> pc (run (env_of img_border) (12 + 100)) = L36"
proof -
  have h: "disk (env_of img_border) ''test.png'' = Some img_border"
    by (simp add: env_of_def)
  have w: "writable (env_of img_border) ''morph.jpg''" by (simp add: env_of_def)
  have k: "\<forall>k. \<not> key_pressed (env_of img_border) k" by (simp add: env_of_def)
  show ?thesis using h w k saved_before_display [OF h w, of 100] by simp
qed

end
